theory Spec2Isabelle
  imports Complex_Main
begin

section \<open>Data model\<close>

text \<open>
  Python strings are sequences of Unicode code points; the Arabic block lies beyond the
  8-bit characters of \<open>string\<close>, so a text is a list of code points.  Bounding boxes are
  Python numbers, read here as exact reals.  A fragment is the dict the storage layer
  hands to the engine, with every key of the data model present.
\<close>

type_synonym str = "nat list"

datatype unit_type = letter | word | sentence | drill_group | divider

record fragment =
  unit_id :: int
  unit_type :: unit_type
  text_content :: str
  bbox_x :: real
  bbox_y :: real
  bbox_w :: real
  bbox_h :: real
  sort_order :: int
  audio_segment_url :: "string option"

datatype section_type =
  Opening_sentence | Alphabet_grid | Letter_introduction | Letter_drill | Word_drill
  | Divider | Generic

record lesson_section =
  page_id :: int
  section_type :: section_type
  target_letter :: "nat option"
  title_ar :: str
  title_uz :: str
  section_sort_order :: nat
  unit_ids :: "int list"
  bbox_y_start :: real
  bbox_y_end :: real
  is_manual :: bool

datatype error = ValueError | AssertionError


section \<open>Arabic text utilities (sectioning.py)\<close>

text \<open>The character class of \<open>_DIACRITICS_RE\<close>: U+0610--U+061A, U+064B--U+065F, U+0670.\<close>

definition DIACRITICS_RE :: "nat \<Rightarrow> bool" where
  "DIACRITICS_RE c \<longleftrightarrow>
     (0x0610 \<le> c \<and> c \<le> 0x061A) \<or> (0x064B \<le> c \<and> c \<le> 0x065F) \<or> c = 0x0670"

definition strip_diacritics :: "str \<Rightarrow> str" where
  "strip_diacritics t = filter (\<lambda>c. \<not> DIACRITICS_RE c) t"

definition is_arabic_letter :: "nat \<Rightarrow> bool" where
  "is_arabic_letter ch \<longleftrightarrow> (0x0621 \<le> ch \<and> ch \<le> 0x064A) \<or> (0x0671 \<le> ch \<and> ch \<le> 0x06FF)"

definition extract_arabic_letters :: "str \<Rightarrow> nat list" where
  "extract_arabic_letters t = (let clean = strip_diacritics t in filter is_arabic_letter clean)"

definition count_chars :: "str \<Rightarrow> nat" where
  "count_chars t = length (extract_arabic_letters t)"

definition has_diacritics :: "str \<Rightarrow> bool" where
  "has_diacritics t = list_ex DIACRITICS_RE t"


section \<open>Y-axis segmentation\<close>

text \<open>
  The body of the \<open>for i in range(1, len(sorted_units))\<close> loop: \<open>prev\<close> is the unit just
  before \<open>curr\<close> in sorted order, the state is \<open>(blocks, current_block)\<close>.
\<close>

fun segment_loop ::
  "real \<Rightarrow> fragment \<Rightarrow> fragment list \<Rightarrow> fragment list list \<times> fragment list
     \<Rightarrow> fragment list list \<times> fragment list" where
  "segment_loop gap_threshold prev [] st = st"
| "segment_loop gap_threshold prev (cur # rest) (blocks, current_block) =
     (let prev_bottom = bbox_y prev + bbox_h prev;
          curr_top = bbox_y cur;
          gap = curr_top - prev_bottom;
          is_divider = (unit_type cur = divider)
      in segment_loop gap_threshold cur rest
           (if gap > gap_threshold \<or> is_divider then
              (if is_divider then
                 ((if current_block \<noteq> [] then blocks @ [current_block] else blocks) @ [[cur]],
                  [])
               else (blocks @ [current_block], [cur]))
            else (blocks, current_block @ [cur])))"

text \<open>Python's \<open>sorted\<close> is a stable sort, as \<open>sort_key\<close> is.\<close>

definition segment_by_y_axis :: "fragment list \<Rightarrow> real \<Rightarrow> fragment list list" where
  "segment_by_y_axis units gap_threshold =
     (case sort_key bbox_y units of
        [] \<Rightarrow> []
      | first # rest \<Rightarrow>
          (case segment_loop gap_threshold first rest ([], [first]) of
             (blocks, current_block) \<Rightarrow>
               if current_block \<noteq> [] then blocks @ [current_block] else blocks))"


section \<open>Title generation\<close>

definition ascii :: "string \<Rightarrow> str" where
  "ascii s = map of_char s"

definition LETTER_NAMES_UZ :: "(nat \<times> str) list" where
  "LETTER_NAMES_UZ =
     [(1575, ascii ''Alif''), (1576, ascii ''Bo''), (1578, ascii ''To''), (1579, ascii ''So''),
      (1580, ascii ''Jim''), (1581, ascii ''Ha''), (1582, ascii ''Xo''), (1583, ascii ''Dal''),
      (1584, ascii ''Zol''), (1585, ascii ''Ro''), (1586, ascii ''Zayn''), (1587, ascii ''Sin''),
      (1588, ascii ''Shin''), (1589, ascii ''Sod''), (1590, ascii ''Zod''), (1591, ascii ''To''),
      (1592, ascii ''Zo''), (1593, ascii ''Ayn''), (1594, ascii ''G'' @ [39] @ ascii ''ayn''),
      (1601, ascii ''Fo''),
      (1602, ascii ''Qof''), (1603, ascii ''Kof''), (1604, ascii ''Lom''), (1605, ascii ''Mim''),
      (1606, ascii ''Nun''), (1607, ascii ''Ho''), (1608, ascii ''Vov''), (1610, ascii ''Yo''),
      (1705, ascii ''Kof''), (1740, ascii ''Yo'')]"

text \<open>
  \<open>target_letter or ''\<close> is the empty string for \<open>None\<close>; the key \<open>''\<close> is not in the
  table, so the lookup then gives its default \<open>''\<close>.
\<close>

definition generate_titles :: "section_type \<Rightarrow> nat option \<Rightarrow> str \<times> str" where
  "generate_titles st target =
     (if st = Opening_sentence then
        ([1576, 1587, 1605, 32, 1575, 1604, 1604, 1607], ascii ''Bismillah'')
      else if st = Alphabet_grid then
        ([1575, 1604, 1581, 1585, 1608, 1601], ascii ''Alifbo'')
      else if st = Divider then ([], [])
      else
        let letter_ar = (case target of None \<Rightarrow> [] | Some c \<Rightarrow> [c]);
            letter_uz = (case target of None \<Rightarrow> []
                         | Some c \<Rightarrow> (case map_of LETTER_NAMES_UZ c of
                                       Some n \<Rightarrow> n | None \<Rightarrow> [c]))
        in if st = Letter_introduction then
             ([1581, 1585, 1601, 32] @ letter_ar, letter_uz @ ascii '' harfi'')
           else if st = Letter_drill then
             ([1578, 1605, 1585, 1610, 1606, 32] @ letter_ar, letter_uz @ ascii '' mashqi'')
           else if st = Word_drill then
             ([1603, 1604, 1605, 1575, 1578, 32] @ letter_ar,
              letter_uz @ ascii '' so'' @ [39] @ ascii ''zlari'')
           else (letter_ar,
                 if letter_uz \<noteq> [] then letter_uz else ascii ''Bo'' @ [39] @ ascii ''lim''))"


section \<open>Block classification\<close>

text \<open>Python's \<open>min\<close> and \<open>max\<close> raise \<open>ValueError\<close> on an empty sequence.\<close>

fun py_min :: "real list \<Rightarrow> error + real" where
  "py_min [] = Inl ValueError"
| "py_min (x # xs) = Inr (foldl min x xs)"

fun py_max :: "real list \<Rightarrow> error + real" where
  "py_max [] = Inl ValueError"
| "py_max (x # xs) = Inr (foldl max x xs)"

text \<open>
  Each rule of \<open>_classify_block\<close> either returns its section type or falls through to
  the next one; \<open>None\<close> is the fall-through.
\<close>

definition rule_opening_sentence :: "fragment list \<Rightarrow> nat \<Rightarrow> section_type option" where
  "rule_opening_sentence block block_index =
     (let unit_types = map unit_type block;
          texts = map text_content block;
          sentence_count = count_list unit_types sentence;
          total = length block
      in if block_index = 0 \<and> sentence_count \<ge> 1 \<and> total \<le> 3 then
           (let avg_len = real (sum_list (map length texts)) / real (max total 1)
            in if avg_len > 10 then Some Opening_sentence else None)
         else None)"

definition rule_alphabet_grid :: "fragment list \<Rightarrow> section_type option" where
  "rule_alphabet_grid block =
     (let unit_types = map unit_type block;
          letter_count = count_list unit_types letter
      in if letter_count \<ge> 14 then
           (let heights = map bbox_h (filter (\<lambda>u. unit_type u = letter) block)
            in if heights \<noteq> [] then
                 (let avg_h = sum_list heights / real (length heights);
                      similar = length (filter (\<lambda>h. \<bar>h - avg_h\<bar> / max avg_h 0.01 < 0.3) heights)
                  in if real similar / real (length heights) > 0.7
                     then Some Alphabet_grid else None)
               else None)
         else None)"

definition rule_letter_introduction :: "fragment list \<Rightarrow> section_type option" where
  "rule_letter_introduction block =
     (let total = length block
      in if total \<le> 5 then
           (let single_letters = filter (\<lambda>u. count_chars (text_content u) = 1) block
            in if single_letters \<noteq> [] \<and> real (length single_letters) \<ge> real total * 0.5 then
                 (let heights = map bbox_h single_letters;
                      max_h = (case py_max heights of Inr m \<Rightarrow> m | Inl e \<Rightarrow> 0)
                  in if max_h > 3.0 then Some Letter_introduction else None)
               else None)
         else None)"

definition rule_letter_drill :: "fragment list \<Rightarrow> section_type option" where
  "rule_letter_drill block =
     (let unit_types = map unit_type block;
          texts = map text_content block;
          letter_count = count_list unit_types letter;
          total = length block
      in if real letter_count \<ge> real total * 0.5 \<or> total \<ge> 3 then
           (let diacritical_count =
                  length (filter (\<lambda>t. has_diacritics t \<and> count_chars t \<le> 2) texts)
            in if real diacritical_count \<ge> real total * 0.4 then Some Letter_drill else None)
         else None)"

definition rule_word_drill :: "fragment list \<Rightarrow> section_type option" where
  "rule_word_drill block =
     (let unit_types = map unit_type block;
          texts = map text_content block;
          char_counts = map count_chars texts;
          word_count = count_list unit_types word;
          total = length block
      in if real word_count \<ge> real total * 0.3 \<or> total \<ge> 2 then
           (let multi_letter = length (filter (\<lambda>c. 2 \<le> c \<and> c \<le> 6) char_counts)
            in if real multi_letter \<ge> real total * 0.4 then Some Word_drill else None)
         else None)"

definition rule_fallback :: "fragment list \<Rightarrow> section_type" where
  "rule_fallback block =
     (let unit_types = map unit_type block;
          letter_count = count_list unit_types letter;
          total = length block
      in if real letter_count \<ge> real total * 0.6 then Letter_drill else Generic)"

definition classify_block :: "fragment list \<Rightarrow> nat \<Rightarrow> nat \<Rightarrow> section_type" where
  "classify_block block block_index total_blocks =
     (case block of
        [] \<Rightarrow> Generic
      | u0 # _ \<Rightarrow>
          if length block = 1 \<and> unit_type u0 = divider then Divider
          else (case rule_opening_sentence block block_index of Some t \<Rightarrow> t | None \<Rightarrow>
               (case rule_alphabet_grid block of Some t \<Rightarrow> t | None \<Rightarrow>
               (case rule_letter_introduction block of Some t \<Rightarrow> t | None \<Rightarrow>
               (case rule_letter_drill block of Some t \<Rightarrow> t | None \<Rightarrow>
               (case rule_word_drill block of Some t \<Rightarrow> t | None \<Rightarrow>
                  rule_fallback block))))))"


section \<open>Target letter extraction\<close>

text \<open>
  \<open>collections.Counter\<close> is a dict: counting an element again updates its entry in place,
  a new element is appended, and iteration follows insertion order.
  \<open>most_common(1)\<close> is \<open>max\<close> over the items with the count as key, which keeps the
  first of several maximal items.
\<close>

fun counter_add :: "'a \<Rightarrow> ('a \<times> nat) list \<Rightarrow> ('a \<times> nat) list" where
  "counter_add x [] = [(x, 1)]"
| "counter_add x ((k, n) # kvs) =
     (if k = x then (k, n + 1) # kvs else (k, n) # counter_add x kvs)"

definition Counter :: "'a list \<Rightarrow> ('a \<times> nat) list" where
  "Counter xs = foldl (\<lambda>c x. counter_add x c) [] xs"

fun max_by_count :: "('a \<times> nat) \<Rightarrow> ('a \<times> nat) list \<Rightarrow> ('a \<times> nat)" where
  "max_by_count best [] = best"
| "max_by_count best (kv # kvs) = max_by_count (if snd kv > snd best then kv else best) kvs"

definition most_common_1 :: "('a \<times> nat) list \<Rightarrow> ('a \<times> nat) list" where
  "most_common_1 c = (case c of [] \<Rightarrow> [] | kv # kvs \<Rightarrow> [max_by_count kv kvs])"

definition extract_target_letter :: "fragment list \<Rightarrow> section_type \<Rightarrow> nat option" where
  "extract_target_letter block st =
     (if st \<in> {Opening_sentence, Divider, Alphabet_grid} then None
      else
        let all_letters = concat (map (\<lambda>u. extract_arabic_letters (text_content u)) block)
        in if all_letters = [] then None
           else (let counter = Counter all_letters;
                     most_common = most_common_1 counter
                 in case most_common of (k, n) # _ \<Rightarrow> Some k | [] \<Rightarrow> None))"


section \<open>Main auto-sectioning function\<close>

text \<open>
  \<open>round(x, 2)\<close> gives the nearest number with two decimals, a tie going to the even
  last digit.
\<close>

definition round_half_even :: "real \<Rightarrow> int" where
  "round_half_even x =
     (let f = \<lfloor>x\<rfloor>; d = x - of_int f
      in if d < 1 / 2 then f else if d > 1 / 2 then f + 1 else if even f then f else f + 1)"

definition py_round :: "real \<Rightarrow> nat \<Rightarrow> real" where
  "py_round x ndigits = of_int (round_half_even (x * 10 ^ ndigits)) / 10 ^ ndigits"

text \<open>The fidelity loop: \<open>assert uid not in seen_unit_ids\<close>, then \<open>seen_unit_ids.add(uid)\<close>.\<close>

fun fidelity_check :: "int list \<Rightarrow> int set \<Rightarrow> error + int set" where
  "fidelity_check [] seen_unit_ids = Inr seen_unit_ids"
| "fidelity_check (uid # uids) seen_unit_ids =
     (if uid \<in> seen_unit_ids then Inl AssertionError
      else fidelity_check uids (insert uid seen_unit_ids))"

text \<open>
  The loop \<open>for i, block in enumerate(blocks)\<close> with its state \<open>(sections, seen_unit_ids)\<close>;
  an exception ends it.
\<close>

fun section_loop ::
  "int \<Rightarrow> nat \<Rightarrow> nat \<Rightarrow> fragment list list \<Rightarrow> lesson_section list \<times> int set
     \<Rightarrow> error + lesson_section list \<times> int set" where
  "section_loop pid total_blocks i [] st = Inr st"
| "section_loop pid total_blocks i (block # rest) (sections, seen_unit_ids) =
     (let st = classify_block block i total_blocks;
          target = extract_target_letter block st;
          titles = generate_titles st target;
          block_sorted = sort_key sort_order block;
          ids = map unit_id block_sorted
      in case fidelity_check ids seen_unit_ids of
           Inl e \<Rightarrow> Inl e
         | Inr seen' \<Rightarrow>
            (case py_min (map bbox_y block) of
               Inl e \<Rightarrow> Inl e
             | Inr y_start \<Rightarrow>
                (case py_max (map (\<lambda>u. bbox_y u + bbox_h u) block) of
                   Inl e \<Rightarrow> Inl e
                 | Inr y_end \<Rightarrow>
                     section_loop pid total_blocks (i + 1) rest
                       (sections @
                          [\<lparr>page_id = pid, section_type = st, target_letter = target,
                            title_ar = fst titles, title_uz = snd titles,
                            section_sort_order = i, unit_ids = ids,
                            bbox_y_start = py_round y_start 2,
                            bbox_y_end = py_round y_end 2,
                            is_manual = False\<rparr>],
                        seen'))))"

definition auto_section_page :: "int \<Rightarrow> fragment list \<Rightarrow> real \<Rightarrow> error + lesson_section list" where
  "auto_section_page pid units gap_threshold =
     (if units = [] then Inr []
      else
        let blocks = segment_by_y_axis units gap_threshold
        in case section_loop pid (length blocks) 0 blocks ([], {}) of
             Inl e \<Rightarrow> Inl e
           | Inr (sections, seen_unit_ids) \<Rightarrow>
               if seen_unit_ids = set (map unit_id units) then Inr sections
               else Inl AssertionError)"


section \<open>QA checker (qa_checker.py)\<close>

text \<open>
  A check result is the dict \<open>{name, passed, message, details}\<close>.  The message is a
  formatted display string computed from the details and is left out; the details are
  kept, one constructor for each check.
\<close>

datatype details =
  Unit_count_details nat nat
  | No_details
  | Diacritics_details nat nat real "(int \<times> str) list"
  | Overlaps_details "(int \<times> int \<times> real) list"
  | Duplicates_details "(str \<times> int \<times> int) list"
  | Hitbox_details nat "(int \<times> str) list"
  | Audio_details nat nat real

record check_result =
  name :: string
  passed :: bool
  details :: details

record QAResult =
  qa_passed :: bool
  score :: real
  checks :: "check_result list"

definition check_unit_count :: "fragment list \<Rightarrow> nat \<Rightarrow> check_result" where
  "check_unit_count units min_units =
     (let count = length units;
          ok = (count \<ge> min_units)
      in \<lparr>name = ''unit_count'', passed = ok, details = Unit_count_details count min_units\<rparr>)"

text \<open>\<open>ARABIC_DIACRITICS\<close> of image_analyzer.py: the twelve code points it lists.\<close>

definition ARABIC_DIACRITICS :: "nat set" where
  "ARABIC_DIACRITICS =
     {0x064B, 0x064C, 0x064D, 0x064E, 0x064F, 0x0650, 0x0651, 0x0652, 0x0653, 0x0654,
      0x0655, 0x0670}"

definition has_arabic_diacritics :: "str \<Rightarrow> bool" where
  "has_arabic_diacritics t = list_ex (\<lambda>c. c \<in> ARABIC_DIACRITICS) t"

text \<open>The test \<open>has_arabic\<close> of the loop: some character lies in U+0600--U+06FF.\<close>

definition has_arabic :: "str \<Rightarrow> bool" where
  "has_arabic t = list_ex (\<lambda>c. 0x0600 \<le> c \<and> c \<le> 0x06FF) t"

fun diacritics_loop ::
  "fragment list \<Rightarrow> nat \<times> nat \<times> (int \<times> str) list \<Rightarrow> nat \<times> nat \<times> (int \<times> str) list" where
  "diacritics_loop [] st = st"
| "diacritics_loop (u # us) (total_arabic_units, units_with_diacritics, units_missing_diacritics) =
     (let t = text_content u
      in diacritics_loop us
           (if has_arabic t then
              (if has_arabic_diacritics t then
                 (total_arabic_units + 1, units_with_diacritics + 1, units_missing_diacritics)
               else
                 (total_arabic_units + 1, units_with_diacritics,
                  units_missing_diacritics @ [(sort_order u, take 50 t)]))
            else (total_arabic_units, units_with_diacritics, units_missing_diacritics)))"

definition check_diacritics_presence :: "fragment list \<Rightarrow> check_result" where
  "check_diacritics_presence units =
     (case diacritics_loop units (0, 0, []) of
        (total_arabic_units, units_with_diacritics, units_missing_diacritics) \<Rightarrow>
          if total_arabic_units = 0 then
            \<lparr>name = ''diacritics_presence'', passed = True, details = No_details\<rparr>
          else
            let ratio = (if total_arabic_units > 0
                         then real units_with_diacritics / real total_arabic_units else 0);
                ok = (ratio \<ge> 0.8)
            in \<lparr>name = ''diacritics_presence'', passed = ok,
                details = Diacritics_details total_arabic_units units_with_diacritics
                            (py_round ratio 2) (take 10 units_missing_diacritics)\<rparr>)"

text \<open>
  The body of the pair loop of \<open>check_overlaps\<close> for one pair with \<open>i < j\<close>: the entry
  appended to \<open>overlaps\<close>, if any.
\<close>

definition overlap_entry :: "fragment \<Rightarrow> fragment \<Rightarrow> (int \<times> int \<times> real) option" where
  "overlap_entry u1 u2 =
     (let x1 = bbox_x u1; y1 = bbox_y u1; w1 = bbox_w u1; h1 = bbox_h u1;
          x2 = bbox_x u2; y2 = bbox_y u2; w2 = bbox_w u2; h2 = bbox_h u2
      in if w1 = 0 \<or> w2 = 0 then None
         else
           let overlap_x = max 0 (min (x1 + w1) (x2 + w2) - max x1 x2);
               overlap_y = max 0 (min (y1 + h1) (y2 + h2) - max y1 y2);
               overlap_area = overlap_x * overlap_y;
               area1 = w1 * h1;
               area2 = w2 * h2;
               min_area = (if min area1 area2 > 0 then min area1 area2 else 1)
           in if overlap_area / min_area > 0.3 then
                Some (sort_order u1, sort_order u2, py_round (overlap_area / min_area) 2)
              else None)"

definition overlaps_loop :: "fragment list \<Rightarrow> (int \<times> int \<times> real) list" where
  "overlaps_loop units =
     concat (map (\<lambda>(i, u1).
       concat (map (\<lambda>(j, u2).
         if i \<ge> j then []
         else (case overlap_entry u1 u2 of None \<Rightarrow> [] | Some e \<Rightarrow> [e]))
         (enumerate 0 units)))
       (enumerate 0 units))"

definition check_overlaps :: "fragment list \<Rightarrow> check_result" where
  "check_overlaps units =
     (let overlaps = overlaps_loop units;
          ok = (length overlaps = 0)
      in \<lparr>name = ''no_overlaps'', passed = ok, details = Overlaps_details (take 10 overlaps)\<rparr>)"

text \<open>
  \<open>str.strip()\<close> removes the leading and trailing white space, the code points for which
  \<open>str.isspace\<close> holds.
\<close>

definition isspace :: "nat \<Rightarrow> bool" where
  "isspace c \<longleftrightarrow>
     (9 \<le> c \<and> c \<le> 13) \<or> (28 \<le> c \<and> c \<le> 32) \<or> c = 0x85 \<or> c = 0xA0 \<or> c = 0x1680
     \<or> (0x2000 \<le> c \<and> c \<le> 0x200A) \<or> c = 0x2028 \<or> c = 0x2029 \<or> c = 0x202F
     \<or> c = 0x205F \<or> c = 0x3000"

definition strip :: "str \<Rightarrow> str" where
  "strip t = rev (dropWhile isspace (rev (dropWhile isspace t)))"

fun duplicates_loop ::
  "fragment list \<Rightarrow> (str \<rightharpoonup> int) \<times> (str \<times> int \<times> int) list
     \<Rightarrow> (str \<rightharpoonup> int) \<times> (str \<times> int \<times> int) list" where
  "duplicates_loop [] st = st"
| "duplicates_loop (u # us) (seen, duplicates) =
     (let t = strip (text_content u)
      in if t = [] then duplicates_loop us (seen, duplicates)
         else (case seen t of
                 Some a \<Rightarrow> duplicates_loop us (seen, duplicates @ [(take 50 t, a, sort_order u)])
               | None \<Rightarrow> duplicates_loop us (seen(t \<mapsto> sort_order u), duplicates)))"

definition check_duplicates :: "fragment list \<Rightarrow> check_result" where
  "check_duplicates units =
     (case duplicates_loop units (Map.empty, []) of
        (seen, duplicates) \<Rightarrow>
          let ok = (length duplicates = 0)
          in \<lparr>name = ''no_duplicates'', passed = ok,
              details = Duplicates_details (take 10 duplicates)\<rparr>)"

definition check_empty_hitboxes :: "fragment list \<Rightarrow> check_result" where
  "check_empty_hitboxes units =
     (let empty = map (\<lambda>u. (sort_order u, take 30 (text_content u)))
                    (filter (\<lambda>u. bbox_w u = 0 \<or> bbox_h u = 0) units);
          ok = True
      in \<lparr>name = ''hitbox_check'', passed = ok,
          details = Hitbox_details (length empty) (take 10 empty)\<rparr>)"

text \<open>An audio reference counts when it is truthy: present and not the empty string.\<close>

definition check_audio_coverage :: "fragment list \<Rightarrow> check_result" where
  "check_audio_coverage units =
     (let total = length units;
          with_audio = length (filter (\<lambda>u. audio_segment_url u \<noteq> None
                                          \<and> audio_segment_url u \<noteq> Some []) units);
          ratio = (if total > 0 then real with_audio / real total else 0)
      in \<lparr>name = ''audio_coverage'', passed = True,
          details = Audio_details total with_audio (py_round ratio 2)\<rparr>)"

definition weights :: "(string \<times> real) list" where
  "weights =
     [(''unit_count'', 0.15), (''diacritics_presence'', 0.30), (''no_overlaps'', 0.20),
      (''no_duplicates'', 0.15), (''hitbox_check'', 0.10), (''audio_coverage'', 0.10)]"

definition all_checks :: "fragment list \<Rightarrow> check_result list" where
  "all_checks units =
     [check_unit_count units 1, check_diacritics_presence units, check_overlaps units,
      check_duplicates units, check_empty_hitboxes units, check_audio_coverage units]"

text \<open>The names joined into the summary line: \<open>failed\<close> of \<open>run_qa_checks\<close>.\<close>

definition failed :: "check_result list \<Rightarrow> string list" where
  "failed cs = map name (filter (\<lambda>c. \<not> passed c) cs)"

definition run_qa_checks :: "fragment list \<Rightarrow> QAResult" where
  "run_qa_checks units =
     (let cs = all_checks units;
          blocking_checks = filter (\<lambda>c. name c \<noteq> ''audio_coverage'') cs;
          ok = list_all passed blocking_checks;
          total_score =
            sum_list (map (\<lambda>c. (case map_of weights (name c) of Some w \<Rightarrow> w | None \<Rightarrow> 0.1)
                                 * (if passed c then 1.0 else 0.0)) cs)
      in \<lparr>qa_passed = ok, score = py_round total_score 2, checks = cs\<rparr>)"


section \<open>Concrete pages\<close>

definition frag ::
  "int \<Rightarrow> unit_type \<Rightarrow> str \<Rightarrow> real \<Rightarrow> real \<Rightarrow> real \<Rightarrow> real \<Rightarrow> fragment" where
  "frag i ty t x y w h =
     \<lparr>unit_id = i, unit_type = ty, text_content = t, bbox_x = x, bbox_y = y, bbox_w = w,
      bbox_h = h, sort_order = i, audio_segment_url = None\<rparr>"

text \<open>A letter, a divider right below it, and a second letter far below the divider.\<close>

definition gap_after_divider :: "fragment list" where
  "gap_after_divider =
     [frag 1 letter [0x0628] 0 0 10 1, frag 2 divider [] 0 1 10 1,
      frag 3 letter [0x062A] 0 10 10 1]"

text \<open>A divider as the topmost fragment, a letter right below it.\<close>

definition divider_on_top :: "fragment list" where
  "divider_on_top = [frag 1 divider [] 0 0 10 1, frag 2 letter [0x0628] 0 1 10 1]"


text \<open>One Arabic letter without any mark.\<close>

definition no_diacritics_page :: "fragment list" where
  "no_diacritics_page = [frag 1 letter [0x0628] 0 0 10 10]"

text \<open>One Arabic letter carrying U+0610, a mark of the first range of \<open>_DIACRITICS_RE\<close>.\<close>

definition small_mark_page :: "fragment list" where
  "small_mark_page = [frag 1 letter [0x0628, 0x0610] 0 0 10 10]"


text \<open>Two fragments whose texts are empty after trimming: an empty text and a single space.\<close>

definition blank_page :: "fragment list" where
  "blank_page = [frag 1 letter [] 0 0 10 10, frag 2 letter [32] 0 20 10 10]"






text \<open>
  The words of the target-letter rule: the base letters of a block in block order, and
  the position of the first occurrence of a letter in a list.  \<open>first_seen\<close> lists
  the distinct elements of a list in the order of their first occurrence.
\<close>

definition block_letters :: "fragment list \<Rightarrow> nat list" where
  "block_letters block = concat (map (\<lambda>u. extract_arabic_letters (text_content u)) block)"

definition first_index :: "'a list \<Rightarrow> 'a \<Rightarrow> nat" where
  "first_index xs c = length (takeWhile (\<lambda>x. x \<noteq> c) xs)"

definition first_seen :: "'a list \<Rightarrow> 'a list" where
  "first_seen xs = rev (remdups (rev xs))"

text \<open>The tie of the specification: letters ba; ba, ta; ta.\<close>

definition tie_block :: "fragment list" where
  "tie_block =
     [frag 1 letter [0x0628] 0 0 10 1, frag 2 word [0x0628, 0x062A] 0 1 10 1,
      frag 3 letter [0x062A] 0 2 10 1]"



definition unread_cleared :: "fragment \<Rightarrow> fragment" where
  "unread_cleared u = u\<lparr>bbox_x := 0, bbox_w := 0, audio_segment_url := None\<rparr>"




section \<open>Evaluation\<close>

lemmas sectioning_defs =
  frag_def auto_section_page_def segment_by_y_axis_def classify_block_def Let_def
  extract_target_letter_def generate_titles_def rule_opening_sentence_def
  rule_alphabet_grid_def rule_letter_introduction_def rule_letter_drill_def
  rule_word_drill_def rule_fallback_def count_chars_def extract_arabic_letters_def
  strip_diacritics_def is_arabic_letter_def DIACRITICS_RE_def has_diacritics_def
  Counter_def most_common_1_def py_round_def round_half_even_def LETTER_NAMES_UZ_def
  ascii_def

lemmas qa_defs =
  run_qa_checks_def all_checks_def failed_def weights_def check_unit_count_def
  check_diacritics_presence_def check_overlaps_def overlaps_loop_def check_duplicates_def
  check_empty_hitboxes_def check_audio_coverage_def Let_def py_round_def
  round_half_even_def


section \<open>The fidelity guarantee and the empty block\<close>

text \<open>
  Claim C1 (partition of the input ids).  The claim asks that on every non-empty list of
  fragments with pairwise distinct ids \<open>auto_section_page\<close> returns sections whose
  \<open>unit_ids\<close> hold every input id exactly once.  On the page \<open>gap_after_divider\<close>, which
  is non-empty and has distinct ids, the function returns no sections at all: the
  segmenter hands it an empty block and \<open>min\<close> over that block raises \<open>ValueError\<close>.
\<close>

theorem auto_section_page_gap_after_divider_raises:
  "gap_after_divider \<noteq> [] \<and> distinct (map unit_id gap_after_divider)
   \<and> auto_section_page 7 gap_after_divider 5 = Inl ValueError"
  by (simp add: gap_after_divider_def sectioning_defs)

text \<open>
  Claim C2 (every emitted block is non-empty).  After a divider the current block is
  empty; when the next fragment lies further than the gap threshold below the divider,
  the gap branch appends that empty block without the test the divider branch and the
  final flush make.  On \<open>gap_after_divider\<close> the segmenter emits an empty block.
\<close>

theorem segment_by_y_axis_emits_empty_block:
  "[] \<in> set (segment_by_y_axis gap_after_divider 5)"
  by (simp add: gap_after_divider_def sectioning_defs)

text \<open>
  Claim C3 (a divider is a section of its own).  The first fragment in sorted order opens
  the current block without being tested for \<open>divider\<close>.  On \<open>divider_on_top\<close> the
  divider shares one section, of type generic, with the letter below it.
\<close>

theorem auto_section_page_divider_on_top:
  "auto_section_page 7 divider_on_top 5 =
     Inr [\<lparr>page_id = 7, section_type = Generic, target_letter = Some 0x0628,
           title_ar = [0x0628], title_uz = ascii ''Bo'', section_sort_order = 0,
           unit_ids = [1, 2], bbox_y_start = 0, bbox_y_end = 2, is_manual = False\<rparr>]"
  by (simp add: divider_on_top_def sectioning_defs insert_commute)


section \<open>Empty input\<close>

text \<open>
  Claim C7.  \<open>auto_section_page\<close> returns the empty list on an empty fragment list, for
  every page id and threshold.  \<open>run_qa_checks\<close> on the empty list does not pass, the
  only failed check is \<open>unit_count\<close>, whose weight is 0.15, and the score is
  1.0 - 0.15 = 0.85.
\<close>

theorem empty_input:
  "auto_section_page pid [] gap_threshold = Inr []
   \<and> qa_passed (run_qa_checks []) = False
   \<and> failed (checks (run_qa_checks [])) = [''unit_count'']
   \<and> map_of weights ''unit_count'' = Some 0.15
   \<and> score (run_qa_checks []) = 1.0 - 0.15
   \<and> score (run_qa_checks []) = 0.85"
  by (simp add: auto_section_page_def qa_defs)

section \<open>The verdict of the QA checker\<close>

lemma name_check_unit_count: "name (check_unit_count units n) = ''unit_count''"
  by (simp add: check_unit_count_def Let_def)

lemma name_check_diacritics_presence:
  "name (check_diacritics_presence units) = ''diacritics_presence''"
  by (simp add: check_diacritics_presence_def Let_def split: prod.splits)

lemma name_check_overlaps: "name (check_overlaps units) = ''no_overlaps''"
  by (simp add: check_overlaps_def Let_def)

lemma name_check_duplicates: "name (check_duplicates units) = ''no_duplicates''"
  by (simp add: check_duplicates_def Let_def split: prod.splits)

lemma name_check_empty_hitboxes: "name (check_empty_hitboxes units) = ''hitbox_check''"
  by (simp add: check_empty_hitboxes_def Let_def)

lemma name_check_audio_coverage: "name (check_audio_coverage units) = ''audio_coverage''"
  by (simp add: check_audio_coverage_def Let_def)

lemmas name_simps =
  name_check_unit_count name_check_diacritics_presence name_check_overlaps
  name_check_duplicates name_check_empty_hitboxes name_check_audio_coverage

lemma passed_check_empty_hitboxes: "passed (check_empty_hitboxes units)"
  by (simp add: check_empty_hitboxes_def Let_def)

lemma passed_check_audio_coverage: "passed (check_audio_coverage units)"
  by (simp add: check_audio_coverage_def Let_def)

lemma all_checks_names:
  "map name (all_checks units) =
     [''unit_count'', ''diacritics_presence'', ''no_overlaps'', ''no_duplicates'',
      ''hitbox_check'', ''audio_coverage'']"
  by (simp add: all_checks_def name_simps)

text \<open>
  Claim C4, as stated, fails: \<open>blocking_checks\<close> leaves out \<open>audio_coverage\<close> only, so
  \<open>diacritics_presence\<close> blocks.  On \<open>no_diacritics_page\<close> the checks \<open>unit_count\<close>,
  \<open>no_overlaps\<close> and \<open>no_duplicates\<close> pass, \<open>diacritics_presence\<close> fails, and the
  verdict is \<open>passed = False\<close>.
\<close>

theorem diacritics_presence_blocks:
  "passed (check_unit_count no_diacritics_page 1)
   \<and> passed (check_overlaps no_diacritics_page)
   \<and> passed (check_duplicates no_diacritics_page)
   \<and> \<not> passed (check_diacritics_presence no_diacritics_page)
   \<and> qa_passed (run_qa_checks no_diacritics_page) = False"
  by (simp add: no_diacritics_page_def frag_def qa_defs has_arabic_def
      has_arabic_diacritics_def ARABIC_DIACRITICS_def strip_def isspace_def
      enumerate_eq_zip overlap_entry_def)

text \<open>
  Claim C4, amended.  The six checks are reported in their fixed order; the verdict is
  \<open>passed = True\<close> exactly when \<open>unit_count\<close>, \<open>diacritics_presence\<close>, \<open>no_overlaps\<close> and
  \<open>no_duplicates\<close> all pass; \<open>hitbox_check\<close> and \<open>audio_coverage\<close> are always reported
  with \<open>passed = True\<close>.
\<close>

theorem run_qa_checks_verdict:
  "checks (run_qa_checks units) = all_checks units
   \<and> map name (all_checks units) =
       [''unit_count'', ''diacritics_presence'', ''no_overlaps'', ''no_duplicates'',
        ''hitbox_check'', ''audio_coverage'']
   \<and> (qa_passed (run_qa_checks units) \<longleftrightarrow>
        passed (check_unit_count units 1) \<and> passed (check_diacritics_presence units)
        \<and> passed (check_overlaps units) \<and> passed (check_duplicates units))
   \<and> passed (check_empty_hitboxes units) \<and> passed (check_audio_coverage units)"
  by (simp add: run_qa_checks_def all_checks_names all_checks_def
      passed_check_empty_hitboxes passed_check_audio_coverage name_simps)


section \<open>The diacritics check\<close>

lemma ARABIC_DIACRITICS_range:
  "c \<in> ARABIC_DIACRITICS \<longleftrightarrow> (0x064B \<le> c \<and> c \<le> 0x0655) \<or> c = 0x0670"
  unfolding ARABIC_DIACRITICS_def by (simp; arith)

lemma has_arabic_diacritics_iff:
  "has_arabic_diacritics t \<longleftrightarrow> (\<exists>c\<in>set t. (0x064B \<le> c \<and> c \<le> 0x0655) \<or> c = 0x0670)"
  by (simp add: has_arabic_diacritics_def list_ex_iff ARABIC_DIACRITICS_range)

lemma diacritics_loop_total:
  "fst (diacritics_loop us (a, b, m)) =
     a + length (filter (\<lambda>u. has_arabic (text_content u)) us)"
  by (induction us arbitrary: a b m) (simp_all add: Let_def)

lemma diacritics_loop_marked:
  "fst (snd (diacritics_loop us (a, b, m))) =
     b + length (filter (\<lambda>u. has_arabic_diacritics (text_content u))
                   (filter (\<lambda>u. has_arabic (text_content u)) us))"
  by (induction us arbitrary: a b m) (simp_all add: Let_def)

text \<open>
  Claim C5, as stated, fails: the check does not use the classifier's \<open>has_diacritics\<close>
  but \<open>has_arabic_diacritics\<close> of the image analyzer, whose table has no code point of
  U+0610--U+061A nor of U+0656--U+065F.  The one fragment of \<open>small_mark_page\<close> is
  Arabic and has a diacritic in the claim's ranges, yet the check fails.
\<close>

theorem diacritics_presence_narrower_table:
  "has_diacritics (text_content (hd small_mark_page))
   \<and> has_arabic (text_content (hd small_mark_page))
   \<and> length small_mark_page = 1
   \<and> \<not> passed (check_diacritics_presence small_mark_page)"
  by (simp add: small_mark_page_def frag_def qa_defs has_arabic_def
      has_arabic_diacritics_def ARABIC_DIACRITICS_def has_diacritics_def DIACRITICS_RE_def)

text \<open>
  Claim C5, amended.  The check counts a fragment as having diacritics exactly when its
  text holds a code point in U+064B--U+0655 or U+0670, and it passes iff there is no
  fragment with a character in U+0600--U+06FF or the fraction of those fragments that
  have diacritics is at least 0.8.
\<close>

theorem check_diacritics_presence_passed:
  "(has_arabic_diacritics t \<longleftrightarrow> (\<exists>c\<in>set t. (0x064B \<le> c \<and> c \<le> 0x0655) \<or> c = 0x0670))
   \<and> (passed (check_diacritics_presence units) \<longleftrightarrow>
        (let arabic = filter (\<lambda>u. has_arabic (text_content u)) units;
             marked = filter (\<lambda>u. has_arabic_diacritics (text_content u)) arabic
         in length arabic = 0 \<or> real (length marked) / real (length arabic) \<ge> 0.8))"
proof -
  obtain n k m' where loop: "diacritics_loop units (0, 0, []) = (n, k, m')"
    by (metis prod_cases3)
  have n: "n = length (filter (\<lambda>u. has_arabic (text_content u)) units)"
    using diacritics_loop_total [of units 0 0 "[]"] loop by simp
  have k: "k = length (filter (\<lambda>u. has_arabic_diacritics (text_content u))
                   (filter (\<lambda>u. has_arabic (text_content u)) units))"
    using diacritics_loop_marked [of units 0 0 "[]"] loop by simp
  have "passed (check_diacritics_presence units) \<longleftrightarrow> n = 0 \<or> real k / real n \<ge> 0.8"
    by (simp add: check_diacritics_presence_def loop Let_def)
  then show ?thesis
    unfolding n k by (simp add: has_arabic_diacritics_iff Let_def)
qed

theorem check_diacritics_presence_passed_witness:
  "(has_arabic_diacritics [0x0628, 0x064E] \<longleftrightarrow>
      (\<exists>c\<in>set [0x0628, 0x064E::nat]. (0x064B \<le> c \<and> c \<le> 0x0655) \<or> c = 0x0670))
   \<and> has_arabic_diacritics [0x0628, 0x064E]
   \<and> passed (check_diacritics_presence [frag 1 letter [0x0628, 0x064E] 0 0 10 10])"
  using check_diacritics_presence_passed
          [of "[0x0628, 0x064E]" "[frag 1 letter [0x0628, 0x064E] 0 0 10 10]"]
  by (simp add: frag_def has_arabic_def has_arabic_diacritics_def ARABIC_DIACRITICS_def)

section \<open>The duplicates check\<close>

lemma duplicates_loop_none:
  "snd (duplicates_loop us (seen, dups)) = [] \<longleftrightarrow>
     dups = []
     \<and> distinct (filter (\<lambda>t. t \<noteq> []) (map (\<lambda>u. strip (text_content u)) us))
     \<and> set (filter (\<lambda>t. t \<noteq> []) (map (\<lambda>u. strip (text_content u)) us)) \<inter> dom seen = {}"
proof (induction us arbitrary: seen dups)
  case Nil
  then show ?case by simp
next
  case (Cons u us)
  let ?t = "strip (text_content u)"
  let ?T = "filter (\<lambda>t. t \<noteq> []) (map (\<lambda>u. strip (text_content u)) us)"
  show ?case
  proof (cases "?t = []")
    case True
    then show ?thesis using Cons.IH [of seen dups] by simp
  next
    case False
    show ?thesis
    proof (cases "seen ?t")
      case None
      have step: "duplicates_loop (u # us) (seen, dups) =
                  duplicates_loop us (seen(?t \<mapsto> sort_order u), dups)"
        using False None by (simp add: Let_def)
      have notin: "?t \<notin> dom seen" using None by (simp add: domIff)
      have "set ?T \<inter> dom (seen(?t \<mapsto> sort_order u)) = {} \<longleftrightarrow>
            ?t \<notin> set ?T \<and> set ?T \<inter> dom seen = {}"
        by auto
      then show ?thesis
        unfolding step Cons.IH using False notin by auto
    next
      case (Some a)
      have step: "duplicates_loop (u # us) (seen, dups) =
                  duplicates_loop us (seen, dups @ [(take 50 ?t, a, sort_order u)])"
        using False Some by (simp add: Let_def)
      have "?t \<in> dom seen" using Some by (simp add: domIff)
      then show ?thesis
        unfolding step Cons.IH using False by auto
    qed
  qed
qed

text \<open>
  Claim C6, as stated, fails: a fragment whose trimmed text is empty is skipped
  (\<open>if not text: continue\<close>), so two of them are not duplicates.  The two fragments of
  \<open>blank_page\<close> have identical trimmed text and the check passes.
\<close>

theorem blank_texts_are_no_duplicates:
  "strip (text_content (blank_page ! 0)) = strip (text_content (blank_page ! 1))
   \<and> passed (check_duplicates blank_page)"
  by (simp add: blank_page_def frag_def check_duplicates_def strip_def isspace_def)

text \<open>
  Claim C6, amended.  The check passes iff no two fragments have identical non-empty
  trimmed text: the list of the trimmed texts of all fragments, the empty ones left out,
  has no repetition.
\<close>

theorem check_duplicates_passed:
  "passed (check_duplicates units) \<longleftrightarrow>
     distinct (filter (\<lambda>t. t \<noteq> []) (map (\<lambda>u. strip (text_content u)) units))"
proof -
  obtain seen dups where loop: "duplicates_loop units (Map.empty, []) = (seen, dups)"
    by (cases "duplicates_loop units (Map.empty, [])")
  have "passed (check_duplicates units) \<longleftrightarrow> dups = []"
    by (simp add: check_duplicates_def loop Let_def)
  also have "\<dots> \<longleftrightarrow> snd (duplicates_loop units (Map.empty, [])) = []"
    by (simp add: loop)
  finally show ?thesis
    by (simp add: duplicates_loop_none)
qed

section \<open>The overlap check\<close>











section \<open>The target letter\<close>

lemma first_seen_snoc:
  "first_seen (xs @ [x]) = (if x \<in> set xs then first_seen xs else first_seen xs @ [x])"
  by (simp add: first_seen_def)

lemma set_first_seen: "set (first_seen xs) = set xs"
  by (simp add: first_seen_def)

lemma distinct_first_seen: "distinct (first_seen xs)"
  by (simp add: first_seen_def)

lemma counter_add_map:
  "distinct ks \<Longrightarrow>
   counter_add x (map (\<lambda>k. (k, f k)) ks) =
     (if x \<in> set ks then map (\<lambda>k. (k, if k = x then f k + 1 else f k)) ks
      else map (\<lambda>k. (k, f k)) ks @ [(x, 1)])"
  by (induction ks) auto

lemma Counter_snoc: "Counter (xs @ [x]) = counter_add x (Counter xs)"
  by (simp add: Counter_def)

lemma Counter_first_seen:
  "Counter xs = map (\<lambda>k. (k, count_list xs k)) (first_seen xs)"
proof (induction xs rule: rev_induct)
  case Nil
  then show ?case by (simp add: Counter_def first_seen_def)
next
  case (snoc x xs)
  show ?case
  proof (cases "x \<in> set xs")
    case True
    then show ?thesis
      by (simp add: Counter_snoc snoc.IH counter_add_map distinct_first_seen set_first_seen
          first_seen_snoc)
  next
    case False
    then have "\<forall>k\<in>set (first_seen xs). k \<noteq> x"
      by (auto simp: set_first_seen)
    with False show ?thesis
      by (auto simp: Counter_snoc snoc.IH counter_add_map distinct_first_seen set_first_seen
          first_seen_snoc)
  qed
qed

lemma max_by_count_ge_best: "snd best \<le> snd (max_by_count best kvs)"
proof (induction kvs arbitrary: best)
  case Nil
  show ?case by simp
next
  case (Cons kv kvs)
  have "snd kv \<le> snd (max_by_count kv kvs)" by (rule Cons.IH)
  moreover have "snd best \<le> snd (max_by_count best kvs)" by (rule Cons.IH)
  ultimately show ?case by simp
qed

lemma max_by_count_ge: "x \<in> set kvs \<Longrightarrow> snd x \<le> snd (max_by_count best kvs)"
proof (induction kvs arbitrary: best)
  case Nil
  then show ?case by simp
next
  case (Cons kv kvs)
  show ?case
  proof (cases "x = kv")
    case True
    have "snd kv \<le> snd (max_by_count kv kvs)" by (rule max_by_count_ge_best)
    moreover have "snd best \<le> snd (max_by_count best kvs)" by (rule max_by_count_ge_best)
    ultimately show ?thesis using True by simp
  next
    case False
    then have "x \<in> set kvs" using Cons.prems by simp
    then show ?thesis using Cons.IH by simp
  qed
qed

lemma max_by_count_cases:
  "max_by_count best kvs = best
   \<or> (max_by_count best kvs \<in> set kvs \<and> snd best < snd (max_by_count best kvs))"
proof (induction kvs arbitrary: best)
  case Nil
  show ?case by simp
next
  case (Cons kv kvs)
  show ?case
  proof (cases "snd kv > snd best")
    case True
    have "snd kv \<le> snd (max_by_count kv kvs)" by (rule max_by_count_ge_best)
    then have "snd best < snd (max_by_count kv kvs)" using True by simp
    moreover have "max_by_count kv kvs \<in> set (kv # kvs)"
      using Cons.IH [of kv] by auto
    ultimately show ?thesis using True by simp
  next
    case False
    then show ?thesis using Cons.IH [of best] by auto
  qed
qed

lemma max_by_count_before:
  "p \<in> set (takeWhile (\<lambda>x. x \<noteq> max_by_count best kvs) kvs) \<Longrightarrow>
   max_by_count best kvs \<noteq> best \<Longrightarrow> snd p < snd (max_by_count best kvs)"
proof (induction kvs arbitrary: best)
  case Nil
  then show ?case by simp
next
  case (Cons kv kvs)
  show ?case
  proof (cases "snd kv > snd best")
    case True
    then have r: "max_by_count best (kv # kvs) = max_by_count kv kvs" by simp
    show ?thesis
    proof (cases "max_by_count kv kvs = kv")
      case True
      then show ?thesis using Cons.prems(1) unfolding r by simp
    next
      case False
      then have lt: "snd kv < snd (max_by_count kv kvs)"
        using max_by_count_cases [of kv kvs] by blast
      have "p = kv \<or> p \<in> set (takeWhile (\<lambda>x. x \<noteq> max_by_count kv kvs) kvs)"
        using Cons.prems(1) False unfolding r by (auto split: if_splits)
      then show ?thesis
        unfolding r using lt Cons.IH [of kv, OF _ False] by blast
    qed
  next
    case False
    then have r: "max_by_count best (kv # kvs) = max_by_count best kvs" by simp
    have ne: "max_by_count best kvs \<noteq> best" using Cons.prems(2) unfolding r .
    then have lt: "snd best < snd (max_by_count best kvs)"
      using max_by_count_cases [of best kvs] by blast
    then have kvlt: "snd kv < snd (max_by_count best kvs)" using False by simp
    have "p = kv \<or> p \<in> set (takeWhile (\<lambda>x. x \<noteq> max_by_count best kvs) kvs)"
      using Cons.prems(1) unfolding r by (auto split: if_splits)
    then show ?thesis
      unfolding r using kvlt Cons.IH [of best, OF _ ne] by blast
  qed
qed

lemma max_by_count_in: "max_by_count best kvs \<in> set (best # kvs)"
  using max_by_count_cases [of best kvs] by auto

lemma max_by_count_max: "x \<in> set (best # kvs) \<Longrightarrow> snd x \<le> snd (max_by_count best kvs)"
  using max_by_count_ge [of x kvs best] max_by_count_ge_best [of best kvs] by auto

lemma max_by_count_first:
  "p \<in> set (takeWhile (\<lambda>x. x \<noteq> max_by_count best kvs) (best # kvs))
   \<Longrightarrow> snd p < snd (max_by_count best kvs)"
proof (cases "max_by_count best kvs = best")
  case True
  assume "p \<in> set (takeWhile (\<lambda>x. x \<noteq> max_by_count best kvs) (best # kvs))"
  then show ?thesis using True by simp
next
  case False
  assume "p \<in> set (takeWhile (\<lambda>x. x \<noteq> max_by_count best kvs) (best # kvs))"
  then have "p = best \<or> p \<in> set (takeWhile (\<lambda>x. x \<noteq> max_by_count best kvs) kvs)"
    using False by (auto split: if_splits)
  moreover have "snd best < snd (max_by_count best kvs)"
    using False max_by_count_cases [of best kvs] by blast
  ultimately show ?thesis using max_by_count_before [OF _ False] by blast
qed

lemma takeWhile_first_seen:
  "c \<in> set xs \<Longrightarrow>
   set (takeWhile (\<lambda>x. x \<noteq> c) (first_seen xs)) = set (takeWhile (\<lambda>x. x \<noteq> c) xs)"
proof (induction xs rule: rev_induct)
  case Nil
  then show ?case by simp
next
  case (snoc x xs)
  show ?case
  proof (cases "c \<in> set xs")
    case True
    then have c': "c \<in> set (first_seen xs)" by (simp add: set_first_seen)
    have l: "takeWhile (\<lambda>y. y \<noteq> c) (xs @ [x]) = takeWhile (\<lambda>y. y \<noteq> c) xs"
      by (rule takeWhile_append1 [OF True]) simp
    have r: "takeWhile (\<lambda>y. y \<noteq> c) (first_seen xs @ [x]) = takeWhile (\<lambda>y. y \<noteq> c) (first_seen xs)"
      by (rule takeWhile_append1 [OF c']) simp
    show ?thesis
      unfolding first_seen_snoc l using r snoc.IH [OF True] by (cases "x \<in> set xs") simp_all
  next
    case False
    then have cx: "x = c" using snoc.prems by simp
    have l: "takeWhile (\<lambda>y. y \<noteq> c) (xs @ [c]) = xs @ takeWhile (\<lambda>y. y \<noteq> c) [c]"
      by (rule takeWhile_append2) (use False in auto)
    have r: "takeWhile (\<lambda>y. y \<noteq> c) (first_seen xs @ [c]) =
             first_seen xs @ takeWhile (\<lambda>y. y \<noteq> c) [c]"
      by (rule takeWhile_append2) (use False in \<open>auto simp: set_first_seen\<close>)
    show ?thesis
      unfolding cx first_seen_snoc l using False r by (simp add: set_first_seen)
  qed
qed

lemma first_index_le:
  "c \<in> set xs \<Longrightarrow> d \<notin> set (takeWhile (\<lambda>x. x \<noteq> c) xs) \<Longrightarrow>
   first_index xs c \<le> first_index xs d"
  unfolding first_index_def by (induction xs) (auto split: if_splits)

lemma most_common_1_Counter:
  assumes "xs \<noteq> []"
  shows "\<exists>c. most_common_1 (Counter xs) = [(c, count_list xs c)] \<and> c \<in> set xs
           \<and> (\<forall>d\<in>set xs. count_list xs d \<le> count_list xs c)
           \<and> (\<forall>d\<in>set (takeWhile (\<lambda>x. x \<noteq> c) xs). count_list xs d < count_list xs c)"
proof -
  let ?g = "\<lambda>k. (k, count_list xs k)"
  have "first_seen xs \<noteq> []"
    using assms set_first_seen [of xs] by (metis set_empty)
  then obtain k ks where ks: "first_seen xs = k # ks"
    by (cases "first_seen xs") auto
  let ?r = "max_by_count (?g k) (map ?g ks)"
  have table: "Counter xs = ?g k # map ?g ks"
    by (simp add: Counter_first_seen ks)
  have mc: "most_common_1 (Counter xs) = [?r]"
    by (simp add: table most_common_1_def)
  have "?r \<in> set (map ?g (first_seen xs))"
    using max_by_count_in [of "?g k" "map ?g ks"] ks by simp
  then obtain c where c: "c \<in> set (first_seen xs)" and r: "?r = ?g c"
    by auto
  have cin: "c \<in> set xs" using c by (simp add: set_first_seen)
  have mx: "count_list xs d \<le> count_list xs c" if "d \<in> set xs" for d
  proof -
    have "d \<in> set (k # ks)" using that ks set_first_seen [of xs] by simp
    then have "?g d \<in> set (?g k # map ?g ks)" by auto
    then have "snd (?g d) \<le> snd ?r" by (rule max_by_count_max)
    then show ?thesis by (simp add: r)
  qed
  have fs: "count_list xs d < count_list xs c"
    if "d \<in> set (takeWhile (\<lambda>x. x \<noteq> c) xs)" for d
  proof -
    have "d \<in> set (takeWhile (\<lambda>x. x \<noteq> c) (first_seen xs))"
      using that takeWhile_first_seen [OF cin] by simp
    then have "?g d \<in> set (map ?g (takeWhile (\<lambda>x. x \<noteq> c) (first_seen xs)))"
      by (simp only: set_map) (rule imageI)
    moreover have "map ?g (takeWhile (\<lambda>x. x \<noteq> c) (first_seen xs)) =
                   takeWhile (\<lambda>x. x \<noteq> ?g c) (map ?g (first_seen xs))"
      by (simp add: takeWhile_map comp_def)
    ultimately have "?g d \<in> set (takeWhile (\<lambda>x. x \<noteq> ?g c) (map ?g (first_seen xs)))"
      by (simp only:)
    then have "?g d \<in> set (takeWhile (\<lambda>x. x \<noteq> ?r) (?g k # map ?g ks))"
      unfolding ks r by (simp only: list.map)
    then have "snd (?g d) < snd ?r" by (rule max_by_count_first)
    then show ?thesis by (simp add: r)
  qed
  show ?thesis using mc r cin mx fs by auto
qed

text \<open>
  Claim C10.  For the section types opening sentence, divider and alphabet grid, and for a
  block without base letters, \<open>extract_target_letter\<close> returns nothing.  Otherwise it
  returns a letter of the block whose count is maximal and, among the letters of maximal
  count, the one whose first occurrence in the concatenated base letters comes first.
\<close>

theorem extract_target_letter_first_seen:
  "(st \<in> {Opening_sentence, Divider, Alphabet_grid} \<longrightarrow> extract_target_letter block st = None)
   \<and> (block_letters block = [] \<longrightarrow> extract_target_letter block st = None)
   \<and> (st \<notin> {Opening_sentence, Divider, Alphabet_grid} \<and> block_letters block \<noteq> [] \<longrightarrow>
       (\<exists>c. extract_target_letter block st = Some c \<and> c \<in> set (block_letters block)
          \<and> (\<forall>d\<in>set (block_letters block).
                count_list (block_letters block) d \<le> count_list (block_letters block) c)
          \<and> (\<forall>d\<in>set (block_letters block).
                count_list (block_letters block) d = count_list (block_letters block) c
                \<longrightarrow> first_index (block_letters block) c \<le> first_index (block_letters block) d)))"
proof (intro conjI impI)
  assume "st \<in> {Opening_sentence, Divider, Alphabet_grid}"
  then show "extract_target_letter block st = None"
    by (simp add: extract_target_letter_def)
next
  assume "block_letters block = []"
  then show "extract_target_letter block st = None"
    by (simp add: extract_target_letter_def block_letters_def Let_def)
next
  let ?L = "block_letters block"
  assume a: "st \<notin> {Opening_sentence, Divider, Alphabet_grid} \<and> ?L \<noteq> []"
  then obtain c where mc: "most_common_1 (Counter ?L) = [(c, count_list ?L c)]"
    and cin: "c \<in> set ?L"
    and mx: "\<forall>d\<in>set ?L. count_list ?L d \<le> count_list ?L c"
    and fs: "\<forall>d\<in>set (takeWhile (\<lambda>x. x \<noteq> c) ?L). count_list ?L d < count_list ?L c"
    using most_common_1_Counter [of ?L] by blast
  have res: "extract_target_letter block st = Some c"
    using a mc unfolding extract_target_letter_def Let_def block_letters_def [symmetric]
    by simp
  have tie: "first_index ?L c \<le> first_index ?L d"
    if "d \<in> set ?L" "count_list ?L d = count_list ?L c" for d
  proof -
    have "d \<notin> set (takeWhile (\<lambda>x. x \<noteq> c) ?L)" using fs that(2) by auto
    then show ?thesis using cin by (rule first_index_le [rotated])
  qed
  show "\<exists>c. extract_target_letter block st = Some c \<and> c \<in> set ?L
          \<and> (\<forall>d\<in>set ?L. count_list ?L d \<le> count_list ?L c)
          \<and> (\<forall>d\<in>set ?L. count_list ?L d = count_list ?L c
                \<longrightarrow> first_index ?L c \<le> first_index ?L d)"
    using res cin mx tie by blast
qed

theorem extract_target_letter_first_seen_witness:
  "block_letters tie_block = [0x0628, 0x0628, 0x062A, 0x062A]
   \<and> Generic \<notin> {Opening_sentence, Divider, Alphabet_grid}
   \<and> count_list (block_letters tie_block) 0x0628 = count_list (block_letters tie_block) 0x062A
   \<and> first_index (block_letters tie_block) 0x0628 \<le> first_index (block_letters tie_block) 0x062A
   \<and> extract_target_letter tie_block Generic = Some 0x0628
   \<and> extract_target_letter tie_block Divider = None"
  using extract_target_letter_first_seen [of Generic tie_block]
    extract_target_letter_first_seen [of Divider tie_block]
  by (simp add: tie_block_def frag_def block_letters_def first_index_def sectioning_defs)

section \<open>Determinism\<close>


lemma unread_cleared_fields [simp]:
  "unit_id (unread_cleared u) = unit_id u"
  "unit_type (unread_cleared u) = unit_type u"
  "text_content (unread_cleared u) = text_content u"
  "bbox_y (unread_cleared u) = bbox_y u"
  "bbox_h (unread_cleared u) = bbox_h u"
  "sort_order (unread_cleared u) = sort_order u"
  by (simp_all add: unread_cleared_def)














section \<open>What the segmenter preserves\<close>

lemma segment_loop_concat:
  "concat (fst (segment_loop g prev rest (blocks, current_block)))
     @ snd (segment_loop g prev rest (blocks, current_block)) =
   concat blocks @ current_block @ rest"
proof (induction rest arbitrary: prev blocks current_block)
  case Nil
  show ?case by simp
next
  case (Cons a rest)
  show ?case
    using Cons.IH [of a "blocks @ [current_block] @ [[a]]" "[]"]
      Cons.IH [of a "blocks @ [[a]]" "[]"]
      Cons.IH [of a "blocks @ [current_block]" "[a]"]
      Cons.IH [of a blocks "current_block @ [a]"]
    by (simp add: Let_def)
qed

text \<open>
  The segmenter neither loses nor repeats a fragment: its blocks, read in order, are the
  fragments sorted by \<open>bbox_y\<close>.  The empty block above is the only thing that stands
  between it and the fidelity guarantee.
\<close>

lemma segment_by_y_axis_concat:
  "concat (segment_by_y_axis units g) = sort_key bbox_y units"
proof (cases "sort_key bbox_y units")
  case Nil
  then show ?thesis by (simp add: segment_by_y_axis_def)
next
  case (Cons first rest)
  obtain blocks cur where l: "segment_loop g first rest ([], [first]) = (blocks, cur)"
    by (cases "segment_loop g first rest ([], [first])")
  have "concat blocks @ cur = first # rest"
    using segment_loop_concat [of g first rest "[]" "[first]"] l by simp
  then show ?thesis
    using Cons l by (auto simp: segment_by_y_axis_def)
qed

end
